theory Spec2Isabelle
  imports Complex_Main "HOL-Library.Word" "HOL-Library.List_Lexorder" "HOL-Library.Multiset"
begin

unbundle bit_operations_syntax

section \<open>Bytes\<close>

text \<open>
  A \<open>Uint8Array\<close> (TypeScript) and a \<open>[]byte\<close> (Go) are lists of 8-bit words; a store
  into a \<open>Uint8Array\<close> keeps the low eight bits, which is what the word operations do.
\<close>

type_synonym byte = "8 word"
type_synonym bytes = "byte list"

text \<open>
  \<open>byte_of\<close> stores a number into a byte array (its low eight bits); \<open>be32\<close> and \<open>be64\<close>
  are the four and eight big-endian bytes of a number.
\<close>

definition byte_of :: "nat \<Rightarrow> byte" where
  "byte_of v = word_of_nat (v mod 256)"

definition be32 :: "nat \<Rightarrow> bytes" where
  "be32 v = [byte_of (v div 2 ^ 24), byte_of (v div 2 ^ 16), byte_of (v div 2 ^ 8), byte_of v]"

definition be64 :: "nat \<Rightarrow> bytes" where
  "be64 v = be32 (v div 2 ^ 32 mod 2 ^ 32) @ be32 (v mod 2 ^ 32)"

section \<open>Bitmap codec (relayer, bitmap.ts)\<close>

text \<open>
  \<open>createBitmap(validatorIndices, totalValidators)\<close>. The validator indices are the
  integer-valued numbers of the source (the source itself tests \<open>idx >= 0\<close>, so negative
  indices are inputs); \<open>totalValidators\<close> is a count (the caller passes an array length).
  \<open>Math.ceil(totalValidators / 8)\<close> on a count is \<open>(totalValidators + 7) div 8\<close>.
  The \<open>for ... of\<close> loop is the recursion \<open>createBitmap_loop\<close> over the index list, carrying the
  bitmap that the source updates in place.
\<close>

fun createBitmap_loop :: "int list \<Rightarrow> nat \<Rightarrow> bytes \<Rightarrow> bytes" where
  "createBitmap_loop [] totalValidators bitmap = bitmap"
| "createBitmap_loop (idx # rest) totalValidators bitmap =
     createBitmap_loop rest totalValidators
       (if 0 \<le> idx \<and> idx < int totalValidators then
          (let byteIdx = nat (idx div 8); bitPos = nat (idx mod 8)
           in bitmap[byteIdx := (bitmap ! byteIdx) OR push_bit bitPos 1])
        else bitmap)"

definition createBitmap :: "int list \<Rightarrow> nat \<Rightarrow> bytes" where
  "createBitmap validatorIndices totalValidators =
     (let bitmapSize = (totalValidators + 7) div 8
      in createBitmap_loop validatorIndices totalValidators (replicate bitmapSize 0))"

text \<open>
  \<open>parseBitmap(bitmap, totalValidators)\<close>. The inner loop over \<open>bitPos\<close> is \<open>parseByte\<close>,
  which returns the indices pushed for one byte and stops (\<open>break\<close>) at the first
  \<open>validatorIdx >= totalValidators\<close>; the outer loop over \<open>byteIdx\<close> is
  \<open>parseBitmap_from\<close>, which appends them in byte order.
\<close>

function parseByte :: "byte \<Rightarrow> nat \<Rightarrow> nat \<Rightarrow> nat \<Rightarrow> int list" where
  "parseByte bitmapByte byteIdx totalValidators bitPos =
     (if bitPos < 8 then
        (let validatorIdx = byteIdx * 8 + bitPos
         in if validatorIdx \<ge> totalValidators then []
            else (if bitmapByte AND push_bit bitPos 1 \<noteq> 0 then [int validatorIdx] else [])
                 @ parseByte bitmapByte byteIdx totalValidators (Suc bitPos))
      else [])"
  by pat_completeness auto
termination
  by (relation "measure (\<lambda>(b, k, n, p). 8 - p)") auto

declare parseByte.simps [simp del]

fun parseBitmap_from :: "nat \<Rightarrow> bytes \<Rightarrow> nat \<Rightarrow> int list" where
  "parseBitmap_from byteIdx [] totalValidators = []"
| "parseBitmap_from byteIdx (bitmapByte # rest) totalValidators =
     parseByte bitmapByte byteIdx totalValidators 0
     @ parseBitmap_from (Suc byteIdx) rest totalValidators"

definition parseBitmap :: "bytes \<Rightarrow> nat \<Rightarrow> int list" where
  "parseBitmap bitmap totalValidators = parseBitmap_from 0 bitmap totalValidators"

text \<open>
  \<open>isBitSet\<close>, \<open>setBit\<close>, \<open>clearBit\<close>. For a non-negative index, \<open>Math.floor(i / 8)\<close> and
  \<open>i % 8\<close> are \<open>i div 8\<close> and \<open>i mod 8\<close>. For a negative index JavaScript gives a negative
  \<open>byteIdx\<close>, which passes the length test; reading a typed array at a negative index
  yields \<open>undefined\<close>, whose bitwise AND is 0, and storing at a negative index of a typed
  array does nothing. So a negative index reads as unset and writes nothing, which is the
  first branch of each definition. \<open>setBit\<close> and \<open>clearBit\<close> update the array in place;
  the model returns the updated array.
\<close>

definition isBitSet :: "bytes \<Rightarrow> int \<Rightarrow> bool" where
  "isBitSet bitmap validatorIndex =
     (if validatorIndex < 0 then False
      else (let byteIdx = nat (validatorIndex div 8); bitPos = nat (validatorIndex mod 8)
            in if byteIdx \<ge> length bitmap then False
               else (bitmap ! byteIdx) AND push_bit bitPos 1 \<noteq> 0))"

definition setBit :: "bytes \<Rightarrow> int \<Rightarrow> bytes" where
  "setBit bitmap validatorIndex =
     (if validatorIndex < 0 then bitmap
      else (let byteIdx = nat (validatorIndex div 8); bitPos = nat (validatorIndex mod 8)
            in if byteIdx < length bitmap
               then bitmap[byteIdx := (bitmap ! byteIdx) OR push_bit bitPos 1]
               else bitmap))"

definition clearBit :: "bytes \<Rightarrow> int \<Rightarrow> bytes" where
  "clearBit bitmap validatorIndex =
     (if validatorIndex < 0 then bitmap
      else (let byteIdx = nat (validatorIndex div 8); bitPos = nat (validatorIndex mod 8)
            in if byteIdx < length bitmap
               then bitmap[byteIdx := (bitmap ! byteIdx) AND NOT (push_bit bitPos 1)]
               else bitmap))"

section \<open>SHA-256 (the hash behind \<open>createHash('sha256')\<close>)\<close>

text \<open>
  The relayer hashes with Node's \<open>crypto\<close> module, which is not part of the repository.
  The function is SHA-256 as FIPS 180-4 defines it: 32-bit words are numbers below
  \<open>2^32\<close>, addition is modulo \<open>2^32\<close> (\<open>add32\<close>), \<open>rotr\<close> rotates a word to the right (the low
  \<open>n\<close> bits move to the top), the message is padded with \<open>0x80\<close>, zeros and
  the 64-bit big-endian bit length, and every 64-byte block is compressed in 64 rounds.
  The message schedule is computed on the fly: the window \<open>w\<close> holds the next sixteen
  schedule words. The round constants \<open>K256\<close> and the initial state are written in decimal;
  the test vectors below check them.
\<close>

definition K256 :: "nat list" where
  "K256 =
    [1116352408, 1899447441, 3049323471, 3921009573, 961987163, 1508970993,
     2453635748, 2870763221, 3624381080, 310598401, 607225278, 1426881987,
     1925078388, 2162078206, 2614888103, 3248222580, 3835390401, 4022224774,
     264347078, 604807628, 770255983, 1249150122, 1555081692, 1996064986,
     2554220882, 2821834349, 2952996808, 3210313671, 3336571891, 3584528711,
     113926993, 338241895, 666307205, 773529912, 1294757372, 1396182291,
     1695183700, 1986661051, 2177026350, 2456956037, 2730485921, 2820302411,
     3259730800, 3345764771, 3516065817, 3600352804, 4094571909, 275423344,
     430227734, 506948616, 659060556, 883997877, 958139571, 1322822218,
     1537002063, 1747873779, 1955562222, 2024104815, 2227730452, 2361852424,
     2428436474, 2756734187, 3204031479, 3329325298]"

definition add32 :: "nat \<Rightarrow> nat \<Rightarrow> nat" where
  "add32 x y = (x + y) mod 4294967296"

definition rotr :: "nat \<Rightarrow> nat \<Rightarrow> nat" where
  "rotr n x = x div 2 ^ n + (x mod 2 ^ n) * 2 ^ (32 - n)"

definition Ch :: "nat \<Rightarrow> nat \<Rightarrow> nat \<Rightarrow> nat" where
  "Ch e f g = (e AND f) XOR ((4294967295 - e) AND g)"

definition Maj :: "nat \<Rightarrow> nat \<Rightarrow> nat \<Rightarrow> nat" where
  "Maj a b c = (a AND b) XOR (a AND c) XOR (b AND c)"

definition Sigma0 :: "nat \<Rightarrow> nat" where
  "Sigma0 x = rotr 2 x XOR rotr 13 x XOR rotr 22 x"

definition Sigma1 :: "nat \<Rightarrow> nat" where
  "Sigma1 x = rotr 6 x XOR rotr 11 x XOR rotr 25 x"

definition sigma0 :: "nat \<Rightarrow> nat" where
  "sigma0 x = rotr 7 x XOR rotr 18 x XOR (x div 2 ^ 3)"

definition sigma1 :: "nat \<Rightarrow> nat" where
  "sigma1 x = rotr 17 x XOR rotr 19 x XOR (x div 2 ^ 10)"

definition sha_pad :: "bytes \<Rightarrow> bytes" where
  "sha_pad m = m @ [0x80] @ replicate ((119 - length m mod 64) mod 64) 0
                 @ be64 (8 * length m mod 2 ^ 64)"

fun be_words :: "bytes \<Rightarrow> nat list" where
  "be_words (a # b # c # d # rest) =
     (unat a * 16777216 + unat b * 65536 + unat c * 256 + unat d) # be_words rest"
| "be_words _ = []"

definition schedule_next :: "nat list \<Rightarrow> nat" where
  "schedule_next w = add32 (add32 (add32 (sigma1 (w ! 14)) (w ! 9)) (sigma0 (w ! 1))) (w ! 0)"

type_synonym sha_state = "nat \<times> nat \<times> nat \<times> nat \<times> nat \<times> nat \<times> nat \<times> nat"

definition T1 :: "nat \<Rightarrow> nat \<Rightarrow> nat \<Rightarrow> nat \<Rightarrow> nat \<Rightarrow> nat \<Rightarrow> nat" where
  "T1 e f g h k w = add32 (add32 (add32 (add32 h (Sigma1 e)) (Ch e f g)) k) w"

definition T2 :: "nat \<Rightarrow> nat \<Rightarrow> nat \<Rightarrow> nat" where
  "T2 a b c = add32 (Sigma0 a) (Maj a b c)"

fun sha_shift :: "nat \<Rightarrow> nat \<Rightarrow> sha_state \<Rightarrow> sha_state" where
  "sha_shift t1 t2 (a, b, c, d, e, f, g, h) = (add32 t1 t2, a, b, c, add32 d t1, e, f, g)"

fun sha_round :: "nat \<Rightarrow> nat \<Rightarrow> sha_state \<Rightarrow> sha_state" where
  "sha_round k w (a, b, c, d, e, f, g, h) =
     sha_shift (T1 e f g h k w) (T2 a b c) (a, b, c, d, e, f, g, h)"

fun rounds :: "nat list \<Rightarrow> nat list \<Rightarrow> sha_state \<Rightarrow> sha_state" where
  "rounds [] w s = s"
| "rounds (k # ks) w s = rounds ks (tl w @ [schedule_next w]) (sha_round k (hd w) s)"

fun add_state :: "sha_state \<Rightarrow> sha_state \<Rightarrow> sha_state" where
  "add_state (a, b, c, d, e, f, g, h) (a', b', c', d', e', f', g', h') =
     (add32 a a', add32 b b', add32 c c', add32 d d', add32 e e', add32 f f', add32 g g', add32 h h')"

definition compress :: "sha_state \<Rightarrow> nat list \<Rightarrow> sha_state" where
  "compress s block = add_state s (rounds K256 block s)"

function sha_blocks :: "sha_state \<Rightarrow> nat list \<Rightarrow> sha_state" where
  "sha_blocks s ws = (if length ws < 16 then s else sha_blocks (compress s (take 16 ws)) (drop 16 ws))"
  by pat_completeness auto
termination
  by (relation "measure (\<lambda>(s, ws). length ws)") auto

declare sha_blocks.simps [simp del]

fun state_bytes :: "sha_state \<Rightarrow> bytes" where
  "state_bytes (a, b, c, d, e, f, g, h) = concat (map be32 [a, b, c, d, e, f, g, h])"

definition sha256 :: "bytes \<Rightarrow> bytes" where
  "sha256 m = state_bytes (sha_blocks
     (1779033703, 3144134277, 1013904242, 2773480762, 1359893119, 2600822924, 528734635, 1541459225)
     (be_words (sha_pad m)))"

section \<open>Canonical encoding (relayer, canonical.ts)\<close>

text \<open>
  A JavaScript string is the list of its code points; \<open>string\<close> covers the code points
  below 256, which include the ASCII identifiers the protocol uses. \<open>TextEncoder.encode\<close>
  is UTF-8: one byte below 128, two bytes from 128 to 255.
\<close>

definition utf8_char :: "char \<Rightarrow> bytes" where
  "utf8_char c =
     (let n = (of_char c :: nat)
      in if n < 128 then [byte_of n] else [byte_of (192 + n div 64), byte_of (128 + n mod 64)])"

definition TextEncoder_encode :: "string \<Rightarrow> bytes" where
  "TextEncoder_encode s = concat (map utf8_char s)"

text \<open>
  \<open>encodeUvarint(value)\<close>. The argument is an array length, a natural number. JavaScript's
  \<open>value & 0xFF\<close> and \<open>| 0x80\<close> work on the low 32 bits, of which only the low eight
  matter here; \<open>value >>>= 7\<close> first reduces \<open>value\<close> modulo \<open>2^32\<close> (ToUint32) and then
  shifts, which is written out.
\<close>

function encodeUvarint :: "nat \<Rightarrow> bytes" where
  "encodeUvarint v =
     (if v \<ge> 0x80
      then byte_of ((v AND 0xFF) OR 0x80) # encodeUvarint ((v mod 2 ^ 32) div 2 ^ 7)
      else [byte_of (v AND 0xFF)])"
  by pat_completeness auto
termination
proof (relation "measure id")
  show "wf (measure id)" by simp
next
  fix v :: nat
  assume "128 \<le> v"
  have "v mod 2 ^ 32 div 2 ^ 7 \<le> v div 2 ^ 7"
    by (rule div_le_mono) simp
  also have "\<dots> < v" using \<open>128 \<le> v\<close> by simp
  finally show "(v mod 2 ^ 32 div 2 ^ 7, v) \<in> measure id" by simp
qed

declare encodeUvarint.simps [simp del]

definition encodeWithLength :: "bytes \<Rightarrow> bytes" where
  "encodeWithLength data = encodeUvarint (length data) @ data"

definition encodeStringWithLength :: "string \<Rightarrow> bytes" where
  "encodeStringWithLength s = encodeWithLength (TextEncoder_encode s)"

text \<open>
  \<open>new Uint8Array(8)\<close> written by \<open>DataView.setBigUint64(0, BigInt(n), false)\<close>: the eight
  big-endian bytes of \<open>n\<close> modulo \<open>2^64\<close>. The numbers \<open>nonce\<close>, \<open>valsetId\<close> and \<open>power\<close>
  are integer-valued (\<open>BigInt\<close> accepts nothing else); the field \<open>power\<close> of a signer is
  \<open>power_val\<close> here.
\<close>

definition setBigUint64 :: "int \<Rightarrow> bytes" where
  "setBigUint64 n = be64 (nat (n mod 2 ^ 64))"

record HyperlaneMessage =
  originChainId :: string
  destChainId :: string
  nonce :: int
  senderModule :: string
  recipientModule :: string
  body :: bytes
  valsetId :: int

record ValsetSigner =
  operator :: string
  attestationPubkey :: bytes
  power_val :: int

text \<open>
  \<open>computeMessageDigest(msg)\<close>: \<open>messageData\<close> is the array \<open>data\<close> of encoded fields, in the
  order of the pushes; the copy loop concatenates them into \<open>result\<close>, which is hashed.
\<close>

definition messageData :: "HyperlaneMessage \<Rightarrow> bytes list" where
  "messageData msg =
     [encodeStringWithLength (originChainId msg),
      encodeStringWithLength (destChainId msg),
      encodeWithLength (setBigUint64 (nonce msg)),
      encodeStringWithLength (senderModule msg),
      encodeStringWithLength (recipientModule msg),
      encodeWithLength (body msg),
      encodeWithLength (setBigUint64 (valsetId msg))]"

definition computeMessageDigest :: "HyperlaneMessage \<Rightarrow> bytes" where
  "computeMessageDigest msg = sha256 (concat (messageData msg))"

text \<open>
  \<open>getAddressBytes(bech32Addr)\<close>. \<open>String_split\<close> is \<open>String.prototype.split\<close> with a
  one-character separator (it never returns the empty array). The function throws when the
  address does not hold exactly one \<open>'1'\<close>; otherwise it copies the first twenty bytes of
  the SHA-256 of the text after the \<open>'1'\<close> into a zeroed array of twenty bytes.
  \<open>Uint8Array_set\<close> is \<open>target.set(source)\<close> for a source no longer than the target.
\<close>

datatype error = InvalidBech32Address

fun String_split :: "char \<Rightarrow> string \<Rightarrow> string list" where
  "String_split sep [] = [[]]"
| "String_split sep (c # cs) =
     (if c = sep then [] # String_split sep cs
      else (case String_split sep cs of
              [] \<Rightarrow> [[c]]
            | p # ps \<Rightarrow> (c # p) # ps))"

definition Uint8Array_set :: "bytes \<Rightarrow> bytes \<Rightarrow> bytes" where
  "Uint8Array_set target source = source @ drop (length source) target"

definition getAddressBytes :: "string \<Rightarrow> error + bytes" where
  "getAddressBytes bech32Addr =
     (let parts = String_split CHR ''1'' bech32Addr
      in if length parts \<noteq> 2 then Inl InvalidBech32Address
         else (let data = parts ! 1;
                   hashBytes = sha256 (TextEncoder_encode data)
               in Inr (Uint8Array_set (replicate 20 0) (take 20 hashBytes))))"

text \<open>
  \<open>Buffer.compare\<close> orders byte strings lexicographically by unsigned byte value, a proper
  prefix first, and returns -1, 0 or 1.
\<close>

fun Buffer_compare :: "bytes \<Rightarrow> bytes \<Rightarrow> int" where
  "Buffer_compare [] [] = 0"
| "Buffer_compare [] (y # ys) = - 1"
| "Buffer_compare (x # xs) [] = 1"
| "Buffer_compare (x # xs) (y # ys) =
     (if x < y then - 1 else if y < x then 1 else Buffer_compare xs ys)"

text \<open>
  \<open>[...signers].sort(compare)\<close>. \<open>Array.prototype.sort\<close> is stable, so for a comparator
  that is a total preorder its result is the one the stable insertion sort \<open>Array_sort\<close>
  computes. The comparator of the source calls \<open>getAddressBytes\<close> on both operands and
  throws when either is rejected. Sorting an array of two or more elements compares every
  element at least once, so the sort throws exactly when some operator is rejected; an
  array of fewer than two elements is returned without any comparison. \<open>addressOf\<close> is
  the comparator's operand where \<open>getAddressBytes\<close> returns. \<open>sortSigners\<close> is the sort
  expression that \<open>getSortedSignerOrder\<close> returns and \<open>computeValsetHash\<close> starts with.
\<close>

fun insert_sorted :: "('a \<Rightarrow> 'a \<Rightarrow> int) \<Rightarrow> 'a \<Rightarrow> 'a list \<Rightarrow> 'a list" where
  "insert_sorted compare x [] = [x]"
| "insert_sorted compare x (y # ys) =
     (if compare x y \<le> 0 then x # y # ys else y # insert_sorted compare x ys)"

definition Array_sort :: "('a \<Rightarrow> 'a \<Rightarrow> int) \<Rightarrow> 'a list \<Rightarrow> 'a list" where
  "Array_sort compare xs = foldr (insert_sorted compare) xs []"

definition addressOf :: "ValsetSigner \<Rightarrow> bytes" where
  "addressOf signer = (case getAddressBytes (operator signer) of Inl e \<Rightarrow> [] | Inr addr \<Rightarrow> addr)"

definition compareSigners :: "ValsetSigner \<Rightarrow> ValsetSigner \<Rightarrow> int" where
  "compareSigners a b = Buffer_compare (addressOf a) (addressOf b)"

definition rejected :: "ValsetSigner \<Rightarrow> bool" where
  "rejected signer = isl (getAddressBytes (operator signer))"

definition sortSigners :: "ValsetSigner list \<Rightarrow> error + ValsetSigner list" where
  "sortSigners signers =
     (if length signers \<ge> 2 \<and> list_ex rejected signers then Inl InvalidBech32Address
      else Inr (Array_sort compareSigners signers))"

definition getSortedSignerOrder :: "ValsetSigner list \<Rightarrow> error + ValsetSigner list" where
  "getSortedSignerOrder signers = sortSigners signers"

text \<open>
  \<open>computeValsetHash(signers)\<close>: the same sort expression, then the loop \<open>signerData\<close> that pushes
  three length-prefixed fields per signer (and throws at a rejected operator), then the
  concatenation and the hash.
\<close>

fun signerData :: "ValsetSigner list \<Rightarrow> error + bytes list" where
  "signerData [] = Inr []"
| "signerData (signer # rest) =
     (case getAddressBytes (operator signer) of
        Inl e \<Rightarrow> Inl e
      | Inr addrBytes \<Rightarrow>
          (case signerData rest of
             Inl e \<Rightarrow> Inl e
           | Inr data \<Rightarrow>
               Inr (encodeWithLength addrBytes
                    # encodeWithLength (attestationPubkey signer)
                    # encodeWithLength (setBigUint64 (power_val signer))
                    # data)))"

definition computeValsetHash :: "ValsetSigner list \<Rightarrow> error + bytes" where
  "computeValsetHash signers =
     (case sortSigners signers of
        Inl e \<Rightarrow> Inl e
      | Inr sortedSigners \<Rightarrow>
          (case signerData sortedSigners of
             Inl e \<Rightarrow> Inl e
           | Inr data \<Rightarrow> Inr (sha256 (concat data))))"

section \<open>Signing daemon (Go: package keys and the HTTP server)\<close>

text \<open>
  \<open>SignDigest(privateKey, digest)\<close> of package \<open>keys\<close>. \<open>crypto.Sign\<close> belongs to the
  go-ethereum library and is a parameter; it returns a signature or fails.
\<close>

datatype keys_error =
    DigestLength nat
  | SignFailed
  | KeyNotFound string
  | InvalidKeyHex
  | ParseKeyFailed

definition SignDigest ::
  "(bytes \<Rightarrow> 'key \<Rightarrow> bytes option) \<Rightarrow> 'key \<Rightarrow> bytes \<Rightarrow> keys_error + bytes" where
  "SignDigest crypto_Sign privateKey digest =
     (if length digest \<noteq> 32 then Inl (DigestLength (length digest))
      else (case crypto_Sign digest privateKey of
              None \<Rightarrow> Inl SignFailed
            | Some signature \<Rightarrow> Inr signature))"

text \<open>
  \<open>hex.DecodeString\<close> of the Go standard library: two hexadecimal digits per byte, either
  case; any other character and an odd length are errors.
\<close>

definition fromHexChar :: "char \<Rightarrow> nat option" where
  "fromHexChar c =
     (let n = (of_char c :: nat)
      in if 48 \<le> n \<and> n \<le> 57 then Some (n - 48)
         else if 97 \<le> n \<and> n \<le> 102 then Some (n - 97 + 10)
         else if 65 \<le> n \<and> n \<le> 70 then Some (n - 65 + 10)
         else None)"

fun hex_DecodeString :: "string \<Rightarrow> bytes option" where
  "hex_DecodeString [] = Some []"
| "hex_DecodeString [c] = None"
| "hex_DecodeString (a # b # rest) =
     (case (fromHexChar a, fromHexChar b) of
        (Some hi, Some lo) \<Rightarrow>
          (case hex_DecodeString rest of
             None \<Rightarrow> None
           | Some bs \<Rightarrow> Some (byte_of (hi * 16 + lo) # bs))
      | _ \<Rightarrow> None)"

text \<open>
  \<open>KeyStore.GetPrivateKey(operatorAddr)\<close>: the key store maps an operator address to the
  hexadecimal text of its private key; \<open>crypto.ToECDSA\<close> is a parameter.
\<close>

definition GetPrivateKey ::
  "(bytes \<Rightarrow> 'key option) \<Rightarrow> (string \<rightharpoonup> string) \<Rightarrow> string \<Rightarrow> keys_error + 'key" where
  "GetPrivateKey crypto_ToECDSA Keys operatorAddr =
     (case Keys operatorAddr of
        None \<Rightarrow> Inl (KeyNotFound operatorAddr)
      | Some privateKeyHex \<Rightarrow>
          (case hex_DecodeString privateKeyHex of
             None \<Rightarrow> Inl InvalidKeyHex
           | Some privateKeyBytes \<Rightarrow>
               (case crypto_ToECDSA privateKeyBytes of
                  None \<Rightarrow> Inl ParseKeyFailed
                | Some privateKey \<Rightarrow> Inr privateKey)))"

text \<open>
  \<open>Server.handleSign\<close>. A request is its HTTP method and the result of decoding its body
  as JSON into a \<open>SignRequest\<close> (\<open>None\<close> when decoding fails). A response is an error
  with its status code and message, or the signature (sent as base64 text with status
  200). The text of the underlying error that the source appends to the message of a
  status 500 response is left out.
\<close>

record SignRequest =
  OperatorBech32 :: string
  DigestHex :: string

record http_request =
  Method :: string
  Body :: "SignRequest option"

datatype http_response =
    ErrorResponse nat string
  | SignResponse bytes

definition handleSign ::
  "(bytes \<Rightarrow> 'key option) \<Rightarrow> (bytes \<Rightarrow> 'key \<Rightarrow> bytes option) \<Rightarrow> (string \<rightharpoonup> string)
     \<Rightarrow> http_request \<Rightarrow> http_response" where
  "handleSign crypto_ToECDSA crypto_Sign Keys r =
     (if Method r \<noteq> ''POST'' then ErrorResponse 405 ''Method not allowed''
      else (case Body r of
        None \<Rightarrow> ErrorResponse 400 ''Invalid JSON request''
      | Some req \<Rightarrow>
          if OperatorBech32 req = [] then ErrorResponse 400 ''operatorBech32 is required''
          else if DigestHex req = [] then ErrorResponse 400 ''digestHex is required''
          else (case hex_DecodeString (DigestHex req) of
            None \<Rightarrow> ErrorResponse 400 ''Invalid digestHex format''
          | Some digest \<Rightarrow>
              if length digest \<noteq> 32 then ErrorResponse 400 ''digest must be exactly 32 bytes''
              else (case GetPrivateKey crypto_ToECDSA Keys (OperatorBech32 req) of
                Inl err \<Rightarrow>
                  ErrorResponse 404 (''Private key not found for operator: '' @ OperatorBech32 req)
              | Inr privateKey \<Rightarrow>
                  (case SignDigest crypto_Sign privateKey digest of
                     Inl err \<Rightarrow> ErrorResponse 500 ''Failed to sign digest''
                   | Inr signature \<Rightarrow> SignResponse signature)))))"

section \<open>The encoding as the specification words it\<close>

text \<open>
  These definitions follow the specification, not the source; the source's functions are
  compared with them below. An unsigned varint holds seven payload bits per byte, least
  significant group first, with the high bit set on every byte but the last. A field is
  its length as an unsigned varint followed by its bytes. A 64-bit unsigned integer is the
  byte 8 followed by its eight bytes, most significant first. A message is its seven
  fields in the fixed order.
\<close>

function uvarint_spec :: "nat \<Rightarrow> bytes" where
  "uvarint_spec n =
     (if n < 128 then [byte_of n] else byte_of (128 + n mod 128) # uvarint_spec (n div 128))"
  by pat_completeness auto
termination
  by (relation "measure id") auto

declare uvarint_spec.simps [simp del]

definition field_spec :: "bytes \<Rightarrow> bytes" where
  "field_spec bs = uvarint_spec (length bs) @ bs"

definition big_endian_spec :: "nat \<Rightarrow> nat \<Rightarrow> bytes" where
  "big_endian_spec k n = map (\<lambda>i. byte_of (n div 256 ^ (k - 1 - i))) [0 ..< k]"

definition u64_spec :: "int \<Rightarrow> bytes" where
  "u64_spec n = 8 # big_endian_spec 8 (nat n)"

definition message_encoding_spec :: "HyperlaneMessage \<Rightarrow> bytes" where
  "message_encoding_spec msg =
     field_spec (TextEncoder_encode (originChainId msg))
     @ field_spec (TextEncoder_encode (destChainId msg))
     @ u64_spec (nonce msg)
     @ field_spec (TextEncoder_encode (senderModule msg))
     @ field_spec (TextEncoder_encode (recipientModule msg))
     @ field_spec (body msg)
     @ u64_spec (valsetId msg)"

section \<open>Verification: bitmap codec\<close>

subsection \<open>Auxiliary facts\<close>

lemma length_createBitmap_loop [simp]:
  "length (createBitmap_loop S n bm) = length bm"
  by (induction S arbitrary: bm) (auto simp: Let_def)

lemma length_createBitmap [simp]: "length (createBitmap S n) = (n + 7) div 8"
  by (simp add: createBitmap_def)

lemma and_exp_neq0: "((x::byte) AND 2 ^ p \<noteq> 0) = bit x p"
  by (simp add: and_exp_eq_0_iff_not_bit)

lemma bit_or_push_bit_1: "j < 8 \<Longrightarrow> bit ((x::byte) OR push_bit p 1) j \<longleftrightarrow> bit x j \<or> j = p"
  by (auto simp: bit_simps)

lemma bit_createBitmap_loop:
  "k < length bm \<Longrightarrow> j < 8 \<Longrightarrow>
   bit (createBitmap_loop S n bm ! k) j \<longleftrightarrow>
     bit (bm ! k) j \<or> (int (8 * k + j) \<in> set S \<and> 8 * k + j < n)"
proof (induction S arbitrary: bm)
  case Nil
  then show ?case by simp
next
  case (Cons idx S)
  show ?case
  proof (cases "0 \<le> idx \<and> idx < int n")
    case False
    then show ?thesis using Cons by auto
  next
    case True
    define bm' where "bm' = bm[nat (idx div 8) := (bm ! nat (idx div 8)) OR push_bit (nat (idx mod 8)) 1]"
    have len: "k < length bm'" using Cons.prems by (simp add: bm'_def)
    have step: "createBitmap_loop (idx # S) n bm = createBitmap_loop S n bm'"
      using True by (simp add: bm'_def Let_def)
    have here: "bit (bm' ! k) j \<longleftrightarrow> bit (bm ! k) j \<or> idx = int (8 * k + j)"
    proof (cases "nat (idx div 8) = k")
      case True
      obtain m where m: "idx = int m"
        using \<open>0 \<le> idx \<and> idx < int n\<close> by (metis nonneg_int_cases)
      have dm: "nat (idx div 8) = m div 8" "nat (idx mod 8) = m mod 8"
        by (simp_all add: m nat_div_distrib nat_mod_distrib)
      have k: "k = m div 8" using True dm by simp
      have e: "(m mod 8 = j) = (m = 8 * (m div 8) + j)"
        using Cons.prems(2) by presburger
      have "(nat (idx mod 8) = j) = (m = 8 * k + j)"
        unfolding dm k by (rule e)
      also have "\<dots> = (idx = int (8 * k + j))"
        unfolding m by (simp only: of_nat_eq_iff)
      finally have eq: "(j = nat (idx mod 8)) = (idx = int (8 * k + j))" by auto
      have upd: "bm' ! k = (bm ! k) OR push_bit (nat (idx mod 8)) 1"
        using True Cons.prems(1) unfolding bm'_def by simp
      show ?thesis
        unfolding upd bit_or_push_bit_1[OF Cons.prems(2)] eq ..
    next
      case False
      have "idx \<noteq> int (8 * k + j)" using False Cons.prems(2) by auto
      then show ?thesis using False by (simp add: bm'_def)
    qed
    show ?thesis
      unfolding step using Cons.IH[OF len Cons.prems(2)] here True by auto
  qed
qed

lemma bit_createBitmap:
  assumes "8 * k + j < n" "j < 8"
  shows "bit (createBitmap S n ! k) j \<longleftrightarrow> int (8 * k + j) \<in> set S"
proof -
  have "k < (n + 7) div 8" using assms by simp
  then show ?thesis using assms
    by (simp add: createBitmap_def bit_createBitmap_loop)
qed

lemma parseByte_eq:
  "p \<le> 8 \<Longrightarrow> parseByte b k n p =
     map int (filter (\<lambda>v. v < n \<and> bit b (v - k * 8)) [k * 8 + p ..< k * 8 + 8])"
proof (induction b k n p rule: parseByte.induct)
  case (1 b k n p)
  show ?case
  proof (cases "p < 8")
    case False
    then show ?thesis using "1.prems" by (simp add: parseByte.simps)
  next
    case True
    note p8 = this
    show ?thesis
    proof (cases "n \<le> k * 8 + p")
      case True
      have "filter (\<lambda>v. v < n \<and> bit b (v - k * 8)) [k * 8 + p ..< k * 8 + 8] = []"
        using True by (auto simp: filter_empty_conv)
      then show ?thesis using True p8 by (simp add: parseByte.simps)
    next
      case False
      have IH: "parseByte b k n (Suc p) =
         map int (filter (\<lambda>v. v < n \<and> bit b (v - k * 8)) [Suc (k * 8 + p) ..< k * 8 + 8])"
        using "1.IH"[OF p8 refl] False p8 by simp
      have upt: "[k * 8 + p ..< k * 8 + 8] = (k * 8 + p) # [Suc (k * 8 + p) ..< k * 8 + 8]"
        using p8 by (simp add: upt_conv_Cons)
      show ?thesis
        using False p8 by (subst parseByte.simps) (simp add: IH upt and_exp_neq0 Let_def del: upt_Suc)
    qed
  qed
qed

lemma parseByte_0:
  "parseByte b k n 0 = map int (filter (\<lambda>v. v < n \<and> bit b (v - 8 * k)) [8 * k ..< 8 * k + 8])"
  using parseByte_eq[of 0 b k n] by (simp add: mult.commute)

lemma parseBitmap_from_eq:
  "parseBitmap_from k bs n =
     map int (filter (\<lambda>v. v < n \<and> bit (bs ! (v div 8 - k)) (v mod 8)) [8 * k ..< 8 * (k + length bs)])"
proof (induction bs arbitrary: k)
  case Nil
  then show ?case by simp
next
  case (Cons b bs)
  have split: "[8 * k ..< 8 * (k + length (b # bs))] =
      [8 * k ..< 8 * k + 8] @ [8 * Suc k ..< 8 * (Suc k + length bs)]"
  proof -
    have "[8 * k ..< (8 * k + 8) + 8 * length bs] = [8 * k ..< 8 * k + 8] @ [8 * k + 8 ..< (8 * k + 8) + 8 * length bs]"
      by (rule upt_add_eq_append) simp
    then show ?thesis by (simp add: algebra_simps)
  qed
  have f1: "filter (\<lambda>v. v < n \<and> bit ((b # bs) ! (v div 8 - k)) (v mod 8)) [8 * k ..< 8 * k + 8]
      = filter (\<lambda>v. v < n \<and> bit b (v - 8 * k)) [8 * k ..< 8 * k + 8]"
  proof (rule filter_cong[OF refl])
    fix v assume "v \<in> set [8 * k ..< 8 * k + 8]"
    then have d: "v div 8 = k" by auto
    have "v mod 8 = v - 8 * (v div 8)" by (simp add: minus_mult_div_eq_mod)
    with d have "v div 8 = k" "v mod 8 = v - 8 * k" by simp_all
    then show "(v < n \<and> bit ((b # bs) ! (v div 8 - k)) (v mod 8)) = (v < n \<and> bit b (v - 8 * k))"
      by simp
  qed
  have f2: "filter (\<lambda>v. v < n \<and> bit ((b # bs) ! (v div 8 - k)) (v mod 8)) [8 * Suc k ..< 8 * (Suc k + length bs)]
      = filter (\<lambda>v. v < n \<and> bit (bs ! (v div 8 - Suc k)) (v mod 8)) [8 * Suc k ..< 8 * (Suc k + length bs)]"
  proof (rule filter_cong[OF refl])
    fix v assume "v \<in> set [8 * Suc k ..< 8 * (Suc k + length bs)]"
    then have "v div 8 - k = Suc (v div 8 - Suc k)" by auto
    then show "(v < n \<and> bit ((b # bs) ! (v div 8 - k)) (v mod 8)) = (v < n \<and> bit (bs ! (v div 8 - Suc k)) (v mod 8))"
      by simp
  qed
  have "parseBitmap_from k (b # bs) n = parseByte b k n 0 @ parseBitmap_from (Suc k) bs n"
    by simp
  also have "\<dots> = map int (filter (\<lambda>v. v < n \<and> bit b (v - 8 * k)) [8 * k ..< 8 * k + 8])
      @ map int (filter (\<lambda>v. v < n \<and> bit (bs ! (v div 8 - Suc k)) (v mod 8))
                  [8 * Suc k ..< 8 * (Suc k + length bs)])"
    unfolding parseByte_0 Cons.IH ..
  also have "\<dots> = map int (filter (\<lambda>v. v < n \<and> bit ((b # bs) ! (v div 8 - k)) (v mod 8))
      ([8 * k ..< 8 * k + 8] @ [8 * Suc k ..< 8 * (Suc k + length bs)]))"
    by (simp only: f1 f2 map_append filter_append)
  finally show ?case unfolding split .
qed

lemma parseBitmap_createBitmap:
  "parseBitmap (createBitmap S n) n = map int (filter (\<lambda>v. int v \<in> set S) [0 ..< n])"
proof -
  let ?bm = "createBitmap S n"
  let ?m = "8 * ((n + 7) div 8)"
  have "parseBitmap ?bm n = map int (filter (\<lambda>v. v < n \<and> bit (?bm ! (v div 8)) (v mod 8)) [0 ..< ?m])"
    by (simp add: parseBitmap_def parseBitmap_from_eq)
  also have "filter (\<lambda>v. v < n \<and> bit (?bm ! (v div 8)) (v mod 8)) [0 ..< ?m]
      = filter (\<lambda>v. v < n \<and> int v \<in> set S) [0 ..< ?m]"
  proof (rule filter_cong[OF refl])
    fix v assume "v \<in> set [0 ..< ?m]"
    show "(v < n \<and> bit (?bm ! (v div 8)) (v mod 8)) = (v < n \<and> int v \<in> set S)"
      using bit_createBitmap[of "v div 8" "v mod 8" n S] by auto
  qed
  also have "[0 ..< ?m] = [0 ..< n] @ [n ..< ?m]"
  proof -
    have "[0 ..< n + (?m - n)] = [0 ..< n] @ [n ..< n + (?m - n)]"
      by (rule upt_add_eq_append) simp
    moreover have "n + (?m - n) = ?m" by auto
    ultimately show ?thesis by simp
  qed
  also have "filter (\<lambda>v. v < n \<and> int v \<in> set S) ([0 ..< n] @ [n ..< ?m])
      = filter (\<lambda>v. int v \<in> set S) [0 ..< n]"
    by (auto simp: filter_empty_conv intro: filter_cong)
  finally show ?thesis .
qed

lemma map_int_filter_sorted_list:
  "map int (filter (\<lambda>v. int v \<in> A) [0 ..< n]) = sorted_list_of_set {i \<in> A. 0 \<le> i \<and> i < int n}"
proof -
  let ?xs = "map int (filter (\<lambda>v. int v \<in> A) [0 ..< n])"
  have s: "sorted ?xs" 
    by (simp add: sorted_map sorted_wrt_filter)
  have d: "distinct ?xs"
    by (simp add: distinct_map inj_on_def)
  have e: "set ?xs = {i \<in> A. 0 \<le> i \<and> i < int n}"
    apply (auto simp: image_iff)
    subgoal for i by (rule exI[of _ "nat i"]) auto
    done
  show ?thesis
    using s d e by (metis sorted_list_of_set.idem_if_sorted_distinct)
qed


lemma ceiling_div8: "nat \<lceil>real n / 8\<rceil> = (n + 7) div 8"
proof -
  have "\<lceil>real n / 8\<rceil> = \<lceil>(of_int (int n) :: real) / of_int 8\<rceil>" by simp
  also have "\<dots> = - ((- int n) div 8)" by (simp only: ceiling_divide_eq_div)
  also have "\<dots> = int ((n + 7) div 8)" by (simp add: zdiv_int)
  finally show ?thesis by simp
qed



lemma isBitSet_bit:
  "0 \<le> i \<Longrightarrow> nat (i div 8) < length bm \<Longrightarrow>
   isBitSet bm i = bit (bm ! nat (i div 8)) (nat (i mod 8))"
  by (simp add: isBitSet_def Let_def and_exp_neq0)

lemma nat_index_split:
  assumes "0 \<le> i"
  shows "int (8 * nat (i div 8) + nat (i mod 8)) = i" "nat (i mod 8) < 8"
  using assms by auto

subsection \<open>Round trip\<close>

text \<open>
  Claim C6 (as amended). For every list of indices \<open>S\<close> all of which lie in
  \<open>0 \<le> i < totalMembers\<close>, decoding the encoded bitmap returns the members of \<open>S\<close> in
  ascending order, each once:
  \<open>parseBitmap (createBitmap S totalMembers) totalMembers = sorted (set S)\<close>.
\<close>

theorem parseBitmap_createBitmap_roundtrip:
  assumes "\<forall>i\<in>set S. 0 \<le> i \<and> i < int totalMembers"
  shows "parseBitmap (createBitmap S totalMembers) totalMembers = sorted_list_of_set (set S)"
proof -
  have "{i \<in> set S. 0 \<le> i \<and> i < int totalMembers} = set S" using assms by auto
  then show ?thesis
    by (simp add: parseBitmap_createBitmap map_int_filter_sorted_list)
qed

text \<open>The round trip at \<open>S = [9, 0, 5]\<close> with twelve members.\<close>

theorem parseBitmap_createBitmap_roundtrip_witness:
  "parseBitmap (createBitmap [9, 0, 5] 12) 12 = [0, 5, 9]"
proof -
  have "\<forall>i\<in>set [9, 0, 5 :: int]. 0 \<le> i \<and> i < int 12" by simp
  from parseBitmap_createBitmap_roundtrip[OF this] show ?thesis
    by (simp add: sorted_list_of_set_sort_remdups)
qed

text \<open>
  Without the range condition the round trip fails: for \<open>S = {5}\<close> and three members,
  \<open>createBitmap\<close> skips the index 5, the bitmap is \<open>[0]\<close>, and \<open>parseBitmap\<close> returns the
  empty list, which is not \<open>sorted S = [5]\<close>.
\<close>

theorem parseBitmap_createBitmap_out_of_range:
  "parseBitmap (createBitmap [5] 3) 3 \<noteq> sorted_list_of_set (set [5])"
  by (simp add: createBitmap_def parseBitmap_def parseByte.simps)

subsection \<open>Layout\<close>

text \<open>
  Claim C7. The encoded bitmap has \<open>ceil(totalMembers / 8)\<close> bytes, and for every index
  \<open>0 \<le> i < totalMembers\<close> the byte \<open>i div 8\<close> exists, its bit \<open>i mod 8\<close> (counted from the
  least significant bit) is set exactly when \<open>i\<close> was encoded, and \<open>isBitSet\<close> reads that
  same bit.
\<close>

theorem createBitmap_layout:
  "length (createBitmap S totalMembers) = nat \<lceil>real totalMembers / 8\<rceil> \<and>
   (\<forall>i. 0 \<le> i \<and> i < int totalMembers \<longrightarrow>
      nat (i div 8) < length (createBitmap S totalMembers) \<and>
      (bit (createBitmap S totalMembers ! nat (i div 8)) (nat (i mod 8)) \<longleftrightarrow> i \<in> set S) \<and>
      (isBitSet (createBitmap S totalMembers) i \<longleftrightarrow> i \<in> set S))"
proof (intro conjI allI impI)
  show "length (createBitmap S totalMembers) = nat \<lceil>real totalMembers / 8\<rceil>"
    by (simp add: ceiling_div8)
next
  fix i assume i: "0 \<le> i \<and> i < int totalMembers"
  then have lt: "8 * nat (i div 8) + nat (i mod 8) < totalMembers"
    using nat_index_split(1)[of i] by linarith
  show len: "nat (i div 8) < length (createBitmap S totalMembers)"
    using lt by simp
  show b: "bit (createBitmap S totalMembers ! nat (i div 8)) (nat (i mod 8)) \<longleftrightarrow> i \<in> set S"
    using bit_createBitmap[OF lt nat_index_split(2), of S] i nat_index_split(1)[of i] by simp
  show "isBitSet (createBitmap S totalMembers) i \<longleftrightarrow> i \<in> set S"
    using isBitSet_bit[OF _ len] i b by simp
qed

text \<open>
  The layout at \<open>S = [0, 9, 5]\<close> with twelve members: two bytes, index 9 is bit 1 of
  byte 1, and index 10 is not set.
\<close>

theorem createBitmap_layout_witness:
  "length (createBitmap [0, 9, 5] 12) = 2 \<and> bit (createBitmap [0, 9, 5] 12 ! 1) 1 \<and>
   isBitSet (createBitmap [0, 9, 5] 12) 9 \<and> \<not> isBitSet (createBitmap [0, 9, 5] 12) 10"
proof -
  note L = createBitmap_layout[of "[0, 9, 5]" 12]
  have len: "length (createBitmap [0, 9, 5] 12) = 2"
    using L[THEN conjunct1] by (simp add: ceiling_div8)
  have i9: "bit (createBitmap [0, 9, 5] 12 ! 1) 1 \<and> isBitSet (createBitmap [0, 9, 5] 12) 9"
    using L[THEN conjunct2, THEN spec, of 9] by simp
  have i10: "\<not> isBitSet (createBitmap [0, 9, 5] 12) 10"
    using L[THEN conjunct2, THEN spec, of 10] by simp
  from len i9 i10 show ?thesis by simp
qed

subsection \<open>Indices at or beyond the member count\<close>




subsection \<open>Access beyond the end of the bitmap\<close>

text \<open>
  Claim C10. For every bitmap and every non-negative index \<open>i\<close> whose byte position
  \<open>i div 8\<close> is at or beyond the bitmap's length, \<open>isBitSet\<close> returns false, and \<open>setBit\<close>
  and \<open>clearBit\<close> leave the bitmap unchanged.
\<close>

theorem bit_access_beyond_length:
  assumes "0 \<le> i" "length bitmap \<le> nat (i div 8)"
  shows "isBitSet bitmap i = False \<and> setBit bitmap i = bitmap \<and> clearBit bitmap i = bitmap"
  using assms by (simp add: isBitSet_def setBit_def clearBit_def Let_def)

text \<open>Index 8 of a one-byte bitmap lies in byte 1, which does not exist.\<close>

theorem bit_access_beyond_length_witness:
  "isBitSet [255] 8 = False \<and> setBit [255] 8 = [255] \<and> clearBit [255] 8 = [255]"
  using bit_access_beyond_length[of 8 "[255]"] by simp

section \<open>Verification: SHA-256 test vectors\<close>

text \<open>
  The hash function above is evaluated by rewriting. The first vector is the standard one
  for the message \<open>abc\<close>; the others are the digests used further below.
\<close>

lemma replicate_numeral_eval: "replicate (numeral n) x = x # replicate (pred_numeral n) x"
  by (simp add: numeral_eq_Suc)

lemmas sha_eval = replicate_numeral_eval sha256_def sha_pad_def be32_def be64_def byte_of_def
  sha_blocks.simps compress_def K256_def schedule_next_def sigma0_def sigma1_def Sigma0_def
  Sigma1_def Ch_def Maj_def rotr_def add32_def T1_def T2_def

lemma sha256_abc: "sha256 [0x61, 0x62, 0x63] =
  [0xba, 0x78, 0x16, 0xbf, 0x8f, 0x01, 0xcf, 0xea, 0x41, 0x41, 0x40, 0xde, 0x5d, 0xae, 0x22, 0x23,
   0xb0, 0x03, 0x61, 0xa3, 0x96, 0x17, 0x7a, 0x9c, 0xb4, 0x10, 0xff, 0x61, 0xf2, 0x00, 0x15, 0xad]"
  by (simp add: sha_eval)

lemma sha256_b: "sha256
  [98]
  = [62, 35, 232, 22, 0, 57, 89, 74, 51, 137, 79, 101, 100, 225, 177, 52, 139, 189, 122, 0, 136,
   212, 44, 74, 203, 115, 238, 174, 213, 156, 0, 157]"
  by (simp add: sha_eval)

lemma sha256_c: "sha256
  [99]
  = [46, 125, 44, 3, 169, 80, 122, 226, 101, 236, 245, 181, 53, 104, 133, 165, 51, 147, 162, 2,
   157, 36, 19, 148, 153, 114, 101, 161, 162, 90, 239, 198]"
  by (simp add: sha_eval)

lemma sha256_demo_message: "sha256
  [8, 111, 114, 103, 99, 104, 97, 105, 110, 8, 100, 115, 116, 99, 104, 97, 105, 110, 8, 0, 0,
   0, 0, 0, 0, 0, 1, 9, 104, 121, 112, 101, 114, 108, 97, 110, 101, 4, 100, 101, 109, 111, 5,
   104, 101, 108, 108, 111, 8, 0, 0, 0, 0, 0, 0, 0, 2]
  = [216, 4, 52, 175, 16, 25, 233, 135, 110, 50, 47, 248, 151, 160, 234, 20, 9, 181, 115, 168,
   77, 218, 243, 150, 208, 122, 12, 144, 96, 24, 201, 230]"
  by (simp add: sha_eval)

lemma sha256_signers_12: "sha256
  [20, 62, 35, 232, 22, 0, 57, 89, 74, 51, 137, 79, 101, 100, 225, 177, 52, 139, 189, 122, 0,
   1, 2, 8, 0, 0, 0, 0, 0, 0, 0, 1, 20, 62, 35, 232, 22, 0, 57, 89, 74, 51, 137, 79, 101, 100,
   225, 177, 52, 139, 189, 122, 0, 1, 3, 8, 0, 0, 0, 0, 0, 0, 0, 2]
  = [70, 203, 231, 130, 183, 186, 152, 147, 77, 161, 20, 4, 141, 19, 80, 18, 161, 66, 29, 185,
   192, 11, 216, 221, 125, 37, 229, 188, 127, 4, 74, 164]"
  by (simp add: sha_eval)

lemma sha256_signers_21: "sha256
  [20, 62, 35, 232, 22, 0, 57, 89, 74, 51, 137, 79, 101, 100, 225, 177, 52, 139, 189, 122, 0,
   1, 3, 8, 0, 0, 0, 0, 0, 0, 0, 2, 20, 62, 35, 232, 22, 0, 57, 89, 74, 51, 137, 79, 101, 100,
   225, 177, 52, 139, 189, 122, 0, 1, 2, 8, 0, 0, 0, 0, 0, 0, 0, 1]
  = [149, 216, 81, 13, 191, 8, 11, 54, 140, 103, 177, 67, 155, 25, 246, 106, 88, 156, 247, 173,
   130, 208, 15, 53, 92, 0, 230, 148, 89, 154, 235, 207]"
  by (simp add: sha_eval)

lemma sha256_lower_case_data: "sha256
  [113, 121, 112, 113, 120, 112, 113, 57, 113, 99, 114, 115, 115, 122, 103, 50, 112, 118, 120,
   113, 54, 114, 115, 48, 122, 113, 103, 51, 121, 121, 99, 53, 108, 122, 118, 55, 120, 117]
  = [7, 234, 4, 68, 201, 229, 119, 147, 195, 224, 70, 151, 105, 236, 192, 84, 190, 164, 210, 36,
   81, 139, 40, 67, 248, 183, 170, 31, 125, 211, 118, 38]"
  by (simp add: sha_eval)

lemma sha256_upper_case_data: "sha256
  [81, 89, 80, 81, 88, 80, 81, 57, 81, 67, 82, 83, 83, 90, 71, 50, 80, 86, 88, 81, 54, 82, 83,
   48, 90, 81, 71, 51, 89, 89, 67, 53, 76, 90, 86, 55, 88, 85]
  = [21, 124, 179, 69, 235, 0, 23, 158, 129, 209, 230, 3, 187, 172, 21, 150, 131, 195, 121, 207,
   100, 134, 37, 230, 57, 241, 177, 68, 29, 56, 215, 126]"
  by (simp add: sha_eval)

lemma length_state_bytes: "length (state_bytes s) = 32"
  by (induction s rule: state_bytes.induct) (simp add: be32_def)

lemma length_sha256: "length (sha256 m) = 32"
  by (simp add: sha256_def length_state_bytes)

section \<open>Verification: canonical message encoding\<close>

subsection \<open>The source's unsigned varint and big-endian bytes against the specification's\<close>

lemma and_255: "(v::nat) AND 255 = v mod 256"
proof -
  have a: "take_bit 8 v = v AND mask 8" by (rule take_bit_eq_mask)
  have b: "mask 8 = (255::nat)" by (simp add: mask_eq_exp_minus_1)
  have "v mod 256 = take_bit 8 v" by (simp add: take_bit_eq_mod)
  with a b show ?thesis by simp
qed

lemma take_bit_Suc_or_exp: "take_bit (Suc k) (v::nat) OR 2 ^ k = 2 ^ k + take_bit k v"
proof -
  have c: "take_bit k v AND 2 ^ k = 0" by (rule bit_eqI) (auto simp: bit_simps)
  have d: "2 ^ k + take_bit k v = take_bit k v OR 2 ^ k"
    using disjunctive_add_eq_or[OF c] by (simp add: add.commute)
  have e: "take_bit (Suc k) v OR 2 ^ k = take_bit k v OR 2 ^ k"
    by (rule bit_eqI) (auto simp: bit_simps less_Suc_eq)
  show ?thesis unfolding d e ..
qed

lemma or_128: "((v::nat) AND 255) OR 128 = 128 + v mod 128"
  using take_bit_Suc_or_exp[of 7 v] by (simp add: and_255 take_bit_eq_mod)

lemma byte_of_mod: "byte_of (n mod 256) = byte_of n"
  by (simp add: byte_of_def)

lemma encodeUvarint_spec: "v < 2 ^ 32 \<Longrightarrow> encodeUvarint v = uvarint_spec v"
proof (induction v rule: encodeUvarint.induct)
  case (1 v)
  show ?case
  proof (cases "128 \<le> v")
    case True
    have eq: "v mod 2 ^ 32 div 2 ^ 7 = v div 128" using "1.prems" by simp
    have lt: "v mod 2 ^ 32 div 2 ^ 7 < 2 ^ 32" unfolding eq using "1.prems" by (simp add: less_mult_imp_div_less)
    have IH: "encodeUvarint (v div 128) = uvarint_spec (v div 128)"
      using "1.IH"[OF _ lt] True unfolding eq by simp
    have "encodeUvarint v = byte_of ((v AND 255) OR 128) # encodeUvarint (v div 128)"
      using True eq by (subst encodeUvarint.simps) simp
    also have "\<dots> = byte_of (128 + v mod 128) # uvarint_spec (v div 128)"
      by (simp only: or_128 IH)
    also have "\<dots> = uvarint_spec v"
      using True by (subst (2) uvarint_spec.simps) simp
    finally show ?thesis .
  next
    case False
    then show ?thesis
      by (subst encodeUvarint.simps, subst uvarint_spec.simps) (simp add: and_255 byte_of_mod)
  qed
qed

text \<open>
  The bound is needed: at \<open>2^32\<close> the source's 32-bit shift loses the high bits, and the
  two encodings part.
\<close>

lemma encodeUvarint_beyond_32_bits: "encodeUvarint 4294967296 = [128, 0]"
  by (simp add: encodeUvarint.simps byte_of_def)

lemma uvarint_spec_beyond_32_bits: "uvarint_spec 4294967296 = [128, 128, 128, 128, 16]"
  by (simp add: uvarint_spec.simps byte_of_def)

lemma byte_of_eqI: "take_bit 8 a = take_bit 8 b \<Longrightarrow> byte_of a = byte_of b"
  by (simp add: byte_of_def take_bit_eq_mod)

lemma byte_of_div_mod: "k + 8 \<le> m \<Longrightarrow> byte_of (n mod 2 ^ m div 2 ^ k) = byte_of (n div 2 ^ k)"
proof (rule byte_of_eqI)
  assume "k + 8 \<le> m"
  then have "take_bit 8 (drop_bit k (take_bit m n)) = take_bit 8 (drop_bit k n)"
    by (intro bit_eqI) (auto simp: bit_simps)
  then show "take_bit 8 (n mod 2 ^ m div 2 ^ k) = take_bit 8 (n div 2 ^ k)"
    by (simp only: drop_bit_eq_div take_bit_eq_mod)
qed

lemma be32_mod: "be32 (x mod 2 ^ 32) =
    [byte_of (x div 2 ^ 24), byte_of (x div 2 ^ 16), byte_of (x div 2 ^ 8), byte_of x]"
  using byte_of_div_mod[of 24 32 x] byte_of_div_mod[of 16 32 x] byte_of_div_mod[of 8 32 x]
    byte_of_div_mod[of 0 32 x]
  unfolding be32_def by simp

lemma be64_spec: "be64 n = big_endian_spec 8 n"
proof -
  have "be64 n = be32 ((n div 2 ^ 32) mod 2 ^ 32) @ be32 (n mod 2 ^ 32)"
    by (simp add: be64_def)
  also have "\<dots> = [byte_of (n div 2 ^ 32 div 2 ^ 24), byte_of (n div 2 ^ 32 div 2 ^ 16),
      byte_of (n div 2 ^ 32 div 2 ^ 8), byte_of (n div 2 ^ 32),
      byte_of (n div 2 ^ 24), byte_of (n div 2 ^ 16), byte_of (n div 2 ^ 8), byte_of n]"
    unfolding be32_mod by simp
  also have "\<dots> = big_endian_spec 8 n"
    by (simp add: big_endian_spec_def upt_rec div_mult2_eq[symmetric])
  finally show ?thesis .
qed

lemma length_be64: "length (be64 n) = 8"
  by (simp add: be64_def be32_def)

lemma encodeUvarint_8: "encodeUvarint 8 = [8]"
  by (simp add: encodeUvarint.simps byte_of_def)

lemma length_big_endian_spec: "length (big_endian_spec k n) = k"
  by (simp add: big_endian_spec_def)

lemma encodeWithLength_spec: "length data < 2 ^ 32 \<Longrightarrow> encodeWithLength data = field_spec data"
  by (simp add: encodeWithLength_def field_spec_def encodeUvarint_spec)

lemma encodeWithLength_u64:
  "0 \<le> n \<Longrightarrow> n < 2 ^ 64 \<Longrightarrow> encodeWithLength (setBigUint64 n) = u64_spec n"
  by (simp add: encodeWithLength_def setBigUint64_def u64_spec_def length_big_endian_spec encodeUvarint_8 be64_spec)

lemma encodeWithLength_short:
  "length data < 128 \<Longrightarrow> encodeWithLength data = word_of_nat (length data) # data"
proof -
  assume a: "length data < 128"
  have "length data AND 255 = length data" using a by (simp add: and_255)
  then show ?thesis using a
    by (simp add: encodeWithLength_def encodeUvarint.simps byte_of_def)
qed

lemmas enc_eval = TextEncoder_encode_def utf8_char_def byte_of_def encodeWithLength_short
  encodeStringWithLength_def setBigUint64_def be64_def be32_def

subsection \<open>The message digest\<close>

text \<open>
  Claim C1. For every message whose \<open>nonce\<close> and \<open>valsetId\<close> are 64-bit unsigned integers
  and whose string and byte fields are shorter than \<open>2^32\<close> bytes (the range in which
  JavaScript's 32-bit shift computes the varint), \<open>computeMessageDigest\<close> returns the
  SHA-256, in one pass, of the concatenation of the seven fields in the order originId,
  destId, nonce, senderModule, recipientModule, body, valsetId: strings and bytes as
  unsigned-varint length followed by the raw bytes, each 64-bit integer as the single byte
  8 followed by its eight big-endian bytes, with no per-field hash and no tag.
\<close>

theorem computeMessageDigest_canonical:
  assumes "length (TextEncoder_encode (originChainId msg)) < 2 ^ 32"
    and "length (TextEncoder_encode (destChainId msg)) < 2 ^ 32"
    and "length (TextEncoder_encode (senderModule msg)) < 2 ^ 32"
    and "length (TextEncoder_encode (recipientModule msg)) < 2 ^ 32"
    and "length (body msg) < 2 ^ 32"
    and "0 \<le> nonce msg" "nonce msg < 2 ^ 64"
    and "0 \<le> valsetId msg" "valsetId msg < 2 ^ 64"
  shows "computeMessageDigest msg = sha256 (message_encoding_spec msg)"
  using assms
  by (simp add: computeMessageDigest_def messageData_def message_encoding_spec_def
      encodeStringWithLength_def encodeWithLength_spec encodeWithLength_u64)

text \<open>
  The specification's concrete scenario: origin \<open>orgchain\<close>, destination \<open>dstchain\<close>,
  nonce 1, sender \<open>hyperlane\<close>, recipient \<open>demo\<close>, body \<open>hello\<close>, valset 2. Its encoding
  has 57 bytes, and its digest is \<open>d80434af...6018c9e6\<close>.
\<close>

theorem computeMessageDigest_canonical_witness:
  "computeMessageDigest
     \<lparr>originChainId = ''orgchain'', destChainId = ''dstchain'', nonce = 1,
      senderModule = ''hyperlane'', recipientModule = ''demo'',
      body = [0x68, 0x65, 0x6c, 0x6c, 0x6f], valsetId = 2\<rparr> =
   [216, 4, 52, 175, 16, 25, 233, 135, 110, 50, 47, 248, 151, 160, 234, 20, 9, 181, 115, 168, 77,
    218, 243, 150, 208, 122, 12, 144, 96, 24, 201, 230]"
proof -
  let ?m = "\<lparr>originChainId = ''orgchain'', destChainId = ''dstchain'', nonce = 1,
      senderModule = ''hyperlane'', recipientModule = ''demo'',
      body = [0x68, 0x65, 0x6c, 0x6c, 0x6f], valsetId = 2\<rparr>"
  have pre: "message_encoding_spec ?m =
    [8, 111, 114, 103, 99, 104, 97, 105, 110, 8, 100, 115, 116, 99, 104, 97, 105, 110,
     8, 0, 0, 0, 0, 0, 0, 0, 1, 9, 104, 121, 112, 101, 114, 108, 97, 110, 101,
     4, 100, 101, 109, 111, 5, 104, 101, 108, 108, 111, 8, 0, 0, 0, 0, 0, 0, 0, 2]"
    by (simp add: message_encoding_spec_def field_spec_def u64_spec_def uvarint_spec.simps
        big_endian_spec_def upt_rec TextEncoder_encode_def utf8_char_def byte_of_def)
  have "computeMessageDigest ?m = sha256 (message_encoding_spec ?m)"
    by (rule computeMessageDigest_canonical) (simp_all add: TextEncoder_encode_def utf8_char_def)
  then show ?thesis unfolding pre sha256_demo_message .
qed

subsection \<open>No cap on the body\<close>

text \<open>
  Claim C3 (as amended). \<open>computeMessageDigest\<close> has no cap on the body: for every
  message whose body is shorter than \<open>2^32\<close> bytes, whatever that length is, it neither
  rejects nor truncates. It returns the SHA-256 of the five leading fields, then the
  unsigned varint (as the specification words it) of the full body length, then the whole
  body, then the valset field; and the five leading fields do not depend on the body.
\<close>

theorem computeMessageDigest_encodes_whole_body:
  assumes "length (body msg) < 2 ^ 32"
  shows "computeMessageDigest msg =
           sha256 (concat (take 5 (messageData msg))
                   @ uvarint_spec (length (body msg)) @ body msg
                   @ encodeWithLength (setBigUint64 (valsetId msg)))
         \<and> take 5 (messageData (msg\<lparr>body := b\<rparr>)) = take 5 (messageData msg)"
  using assms
  by (simp add: computeMessageDigest_def messageData_def encodeWithLength_def encodeUvarint_spec)

text \<open>A body of 40000 bytes: its length prefix is \<open>c0 b8 02\<close>, and all of it is hashed.\<close>

theorem computeMessageDigest_encodes_whole_body_witness:
  "computeMessageDigest \<lparr>originChainId = ''a'', destChainId = ''b'', nonce = 1, senderModule = ''s'',
       recipientModule = ''r'', body = replicate 40000 7, valsetId = 2\<rparr> =
     sha256 ([1, 97, 1, 98, 8, 0, 0, 0, 0, 0, 0, 0, 1, 1, 115, 1, 114, 192, 184, 2]
             @ replicate 40000 7 @ [8, 0, 0, 0, 0, 0, 0, 0, 2])"
proof -
  let ?m = "\<lparr>originChainId = ''a'', destChainId = ''b'', nonce = 1, senderModule = ''s'',
       recipientModule = ''r'', body = replicate 40000 7, valsetId = 2\<rparr>"
  have l: "length (body ?m) < 2 ^ 32" by simp
  have u: "uvarint_spec 40000 = [192, 184, 2]"
    by (simp add: uvarint_spec.simps byte_of_def)
  have p: "concat (take 5 (messageData ?m)) = [1, 97, 1, 98, 8, 0, 0, 0, 0, 0, 0, 0, 1, 1, 115, 1, 114]"
    by (simp add: messageData_def enc_eval)
  have s: "encodeWithLength (setBigUint64 (valsetId ?m)) = [8, 0, 0, 0, 0, 0, 0, 0, 2]"
    by (simp add: enc_eval)
  from computeMessageDigest_encodes_whole_body[OF l, THEN conjunct1] show ?thesis
    unfolding p s by (simp add: u)
qed

text \<open>
  A body of 32769 bytes, one more than the default cap of 32 KiB, is encoded in full
  (its length prefix is \<open>81 80 02\<close>) and digested.
\<close>

theorem computeMessageDigest_accepts_oversized_body:
  "length (body \<lparr>originChainId = ''a'', destChainId = ''b'', nonce = 1, senderModule = ''s'',
       recipientModule = ''r'', body = replicate 32769 0, valsetId = 2\<rparr>) = 32769 \<and>
   computeMessageDigest \<lparr>originChainId = ''a'', destChainId = ''b'', nonce = 1, senderModule = ''s'',
       recipientModule = ''r'', body = replicate 32769 0, valsetId = 2\<rparr> =
     sha256 ([1, 97, 1, 98, 8, 0, 0, 0, 0, 0, 0, 0, 1, 1, 115, 1, 114, 0x81, 0x80, 0x02]
             @ replicate 32769 0 @ [8, 0, 0, 0, 0, 0, 0, 0, 2])"
proof -
  have b: "encodeWithLength (replicate 32769 0) = [0x81, 0x80, 0x02] @ replicate 32769 0"
    by (simp add: encodeWithLength_def encodeUvarint.simps byte_of_def)
  show ?thesis
    by (simp add: computeMessageDigest_def messageData_def b enc_eval)
qed

section \<open>Verification: address normalisation\<close>

lemma String_split_append:
  "CHR ''1'' \<notin> set hrp \<Longrightarrow> CHR ''1'' \<notin> set data \<Longrightarrow>
   String_split CHR ''1'' (hrp @ CHR ''1'' # data) = [hrp, data]"
proof (induction hrp)
  case Nil
  have "String_split CHR ''1'' data = [data]" using Nil(2)
    by (induction data) auto
  then show ?case by simp
next
  case (Cons c hrp)
  then show ?case by auto
qed

text \<open>
  Whatever stands before the only \<open>'1'\<close>, the result is the first twenty bytes of the
  SHA-256 of the text after it.
\<close>

lemma getAddressBytes_hash:
  assumes "CHR ''1'' \<notin> set hrp" "CHR ''1'' \<notin> set data"
  shows "getAddressBytes (hrp @ CHR ''1'' # data) = Inr (take 20 (sha256 (TextEncoder_encode data)))"
  using assms by (simp add: getAddressBytes_def String_split_append Uint8Array_set_def length_sha256)

text \<open>
  Claim C2 asks for the decoded payload of the identifier. The bech32 string
  \<open>cosmos1qypqxpq9qcrsszg2pvxq6rs0zqg3yyc5lzv7xu\<close> and its upper-case form encode the same
  twenty bytes \<open>01 02 ... 14\<close>. \<open>getAddressBytes\<close> returns for each the head of the SHA-256
  of the text after the \<open>'1'\<close>: two different results, neither of them the payload.
\<close>

theorem getAddressBytes_hashes_display_string:
  "getAddressBytes ''cosmos1qypqxpq9qcrsszg2pvxq6rs0zqg3yyc5lzv7xu'' =
     Inr [7, 234, 4, 68, 201, 229, 119, 147, 195, 224, 70, 151, 105, 236, 192, 84, 190, 164, 210, 36]
   \<and> getAddressBytes ''COSMOS1QYPQXPQ9QCRSSZG2PVXQ6RS0ZQG3YYC5LZV7XU'' =
     Inr [21, 124, 179, 69, 235, 0, 23, 158, 129, 209, 230, 3, 187, 172, 21, 150, 131, 195, 121, 207]"
  by (simp add: getAddressBytes_def TextEncoder_encode_def utf8_char_def byte_of_def
      sha256_lower_case_data sha256_upper_case_data Uint8Array_set_def)

section \<open>Verification: validator set ordering and commitment\<close>

lemma Buffer_compare_le: "Buffer_compare a b \<le> 0 \<longleftrightarrow> a \<le> b"
  by (induction a b rule: Buffer_compare.induct) auto

lemma Buffer_compare_refl: "Buffer_compare a a = 0"
  by (induction a) auto

lemma insert_sorted_insort:
  "insert_sorted compareSigners x ys = insort_key addressOf x ys"
  by (induction ys) (simp_all add: compareSigners_def Buffer_compare_le)

lemma Array_sort_sort_key: "Array_sort compareSigners xs = sort_key addressOf xs"
  by (induction xs) (simp_all add: Array_sort_def sort_key_def insert_sorted_insort)

lemma signerData_accepted:
  "\<not> list_ex rejected xs \<Longrightarrow>
   signerData xs = Inr (concat (map (\<lambda>s. [encodeWithLength (addressOf s),
        encodeWithLength (attestationPubkey s), encodeWithLength (setBigUint64 (power_val s))]) xs))"
  by (induction xs) (auto simp: rejected_def addressOf_def split: sum.splits)

lemma signerData_rejected: "list_ex rejected xs \<Longrightarrow> signerData xs = Inl InvalidBech32Address"
proof (induction xs)
  case Nil
  then show ?case by simp
next
  case (Cons s xs)
  show ?case
  proof (cases "getAddressBytes (operator s)")
    case (Inl e)
    then show ?thesis by (cases e) simp
  next
    case (Inr addr)
    then have "\<not> rejected s" by (simp add: rejected_def)
    then have "list_ex rejected xs" using Cons.prems by simp
    then show ?thesis using Cons.IH Inr by simp
  qed
qed

lemma list_ex_sort_key: "list_ex P (sort_key f xs) = list_ex P xs"
  by (simp add: list_ex_iff)

lemma computeValsetHash_eq:
  "computeValsetHash xs =
     (if list_ex rejected xs then Inl InvalidBech32Address
      else Inr (sha256 (concat (concat (map (\<lambda>s. [encodeWithLength (addressOf s),
        encodeWithLength (attestationPubkey s), encodeWithLength (setBigUint64 (power_val s))])
          (sort_key addressOf xs))))))"
proof (cases "list_ex rejected xs")
  case True
  then have "signerData (sort_key addressOf xs) = Inl InvalidBech32Address"
    by (intro signerData_rejected) (simp add: list_ex_sort_key)
  then show ?thesis using True
    by (simp add: computeValsetHash_def sortSigners_def Array_sort_sort_key)
next
  case False
  then have "\<not> list_ex rejected (sort_key addressOf xs)" by (simp add: list_ex_sort_key)
  from signerData_accepted[OF this] show ?thesis using False
    by (simp add: computeValsetHash_def sortSigners_def Array_sort_sort_key)
qed

lemma filter_distinct_key:
  "distinct (map f l) \<Longrightarrow> k \<in> set l \<Longrightarrow> filter (\<lambda>x. f k = f x) l = [k]"
proof (induction l)
  case Nil
  then show ?case by simp
next
  case (Cons a l)
  show ?case
  proof (cases "k = a")
    case True
    have "filter (\<lambda>x. f a = f x) l = []"
      using Cons.prems(1) by (auto simp: filter_empty_conv)
    then show ?thesis using True by simp
  next
    case False
    then have "k \<in> set l" using Cons.prems by simp
    moreover have "f k \<in> f ` set l" using \<open>k \<in> set l\<close> by simp
    moreover have "f a \<notin> f ` set l" using Cons.prems(1) by simp
    ultimately have "f k \<noteq> f a" by metis
    moreover note \<open>k \<in> set l\<close>
    ultimately show ?thesis using Cons by simp
  qed
qed

lemma sort_key_permuted:
  assumes "mset ys = mset xs" "distinct (map f xs)"
  shows "sort_key f xs = sort_key f ys"
proof (rule properties_for_sort_key)
  show "mset (sort_key f ys) = mset xs" using assms(1) by simp
  show "sorted (map f (sort_key f ys))" by simp
  fix k assume k: "k \<in> set (sort_key f ys)"
  have "mset (map f (sort_key f ys)) = mset (map f xs)" using assms(1) by simp
  then have d: "distinct (map f (sort_key f ys))"
    using assms(2) by (metis mset_eq_imp_distinct_iff)
  have kx: "k \<in> set xs" using k assms(1) by (metis mset_eq_setD set_sort)
  show "filter (\<lambda>x. f k = f x) (sort_key f ys) = filter (\<lambda>x. f k = f x) xs"
    using filter_distinct_key[OF d k] filter_distinct_key[OF assms(2) kx] by simp
qed

lemma getAddressBytes_a1b: "getAddressBytes ''a1b'' =
   Inr [62, 35, 232, 22, 0, 57, 89, 74, 51, 137, 79, 101, 100, 225, 177, 52, 139, 189, 122, 0]"
  by (simp add: getAddressBytes_def TextEncoder_encode_def utf8_char_def byte_of_def sha256_b
      Uint8Array_set_def)

lemma getAddressBytes_a1c: "getAddressBytes ''a1c'' =
   Inr [46, 125, 44, 3, 169, 80, 122, 226, 101, 236, 245, 181, 53, 104, 133, 165, 51, 147, 162, 2]"
  by (simp add: getAddressBytes_def TextEncoder_encode_def utf8_char_def byte_of_def sha256_c
      Uint8Array_set_def)

lemmas valset_eval = computeValsetHash_def sortSigners_def rejected_def getAddressBytes_a1b
  Array_sort_def compareSigners_def addressOf_def Buffer_compare_refl enc_eval

subsection \<open>Independence of the input order\<close>

text \<open>
  Claim C4 (as amended). For every validator list whose operators normalize to pairwise
  distinct sort keys, and every permutation of it, \<open>computeValsetHash\<close> returns the same
  result for the permuted list as for the original one (the same 32-byte hash, or the same
  failure when an operator is rejected).
\<close>

theorem computeValsetHash_permutation_invariant:
  assumes "mset permuted = mset signers" "distinct (map addressOf signers)"
  shows "computeValsetHash permuted = computeValsetHash signers"
proof -
  have "list_ex rejected permuted = list_ex rejected signers"
    using assms(1) by (metis list_ex_iff mset_eq_setD)
  moreover have "sort_key addressOf signers = sort_key addressOf permuted"
    using assms by (rule sort_key_permuted)
  ultimately show ?thesis by (simp add: computeValsetHash_eq)
qed

text \<open>Two signers with the operators \<open>a1b\<close> and \<open>a1c\<close>, in either order.\<close>

theorem computeValsetHash_permutation_invariant_witness:
  "computeValsetHash
     [\<lparr>operator = ''a1c'', attestationPubkey = [3], power_val = 2\<rparr>,
      \<lparr>operator = ''a1b'', attestationPubkey = [2], power_val = 1\<rparr>]
   = computeValsetHash
     [\<lparr>operator = ''a1b'', attestationPubkey = [2], power_val = 1\<rparr>,
      \<lparr>operator = ''a1c'', attestationPubkey = [3], power_val = 2\<rparr>]"
proof (rule computeValsetHash_permutation_invariant)
  show "mset [\<lparr>operator = ''a1c'', attestationPubkey = [3], power_val = 2\<rparr>,
      \<lparr>operator = ''a1b'', attestationPubkey = [2], power_val = 1\<rparr>]
    = mset [\<lparr>operator = ''a1b'', attestationPubkey = [2], power_val = 1\<rparr>,
      \<lparr>operator = ''a1c'', attestationPubkey = [3], power_val = 2\<rparr>]"
    by simp
  show "distinct (map addressOf [\<lparr>operator = ''a1b'', attestationPubkey = [2], power_val = 1\<rparr>,
      \<lparr>operator = ''a1c'', attestationPubkey = [3], power_val = 2\<rparr>])"
    by (simp add: addressOf_def getAddressBytes_a1b getAddressBytes_a1c)
qed

text \<open>
  With equal sort keys the order of the input decides: two signers with the same operator
  \<open>a1b\<close> and different keys and powers hash to \<open>46cbe782...\<close> in one order and to
  \<open>95d8510d...\<close> in the other, because the stable sort leaves them as they came.
\<close>

theorem computeValsetHash_order_dependent_on_ties:
  "computeValsetHash
     [\<lparr>operator = ''a1b'', attestationPubkey = [2], power_val = 1\<rparr>,
      \<lparr>operator = ''a1b'', attestationPubkey = [3], power_val = 2\<rparr>]
   \<noteq> computeValsetHash
     [\<lparr>operator = ''a1b'', attestationPubkey = [3], power_val = 2\<rparr>,
      \<lparr>operator = ''a1b'', attestationPubkey = [2], power_val = 1\<rparr>]"
proof -
  have a: "computeValsetHash
     [\<lparr>operator = ''a1b'', attestationPubkey = [2], power_val = 1\<rparr>,
      \<lparr>operator = ''a1b'', attestationPubkey = [3], power_val = 2\<rparr>] =
     Inr [70, 203, 231, 130, 183, 186, 152, 147, 77, 161, 20, 4, 141, 19, 80, 18, 161, 66, 29, 185, 192,
          11, 216, 221, 125, 37, 229, 188, 127, 4, 74, 164]"
    by (simp add: valset_eval sha256_signers_12)
  have b: "computeValsetHash
     [\<lparr>operator = ''a1b'', attestationPubkey = [3], power_val = 2\<rparr>,
      \<lparr>operator = ''a1b'', attestationPubkey = [2], power_val = 1\<rparr>] =
     Inr [149, 216, 81, 13, 191, 8, 11, 54, 140, 103, 177, 67, 155, 25, 246, 106, 88, 156, 247, 173, 130,
          208, 15, 53, 92, 0, 230, 148, 89, 154, 235, 207]"
    by (simp add: valset_eval sha256_signers_21)
  show ?thesis unfolding a b by simp
qed

subsection \<open>Duplicates\<close>

text \<open>
  Claim C5 (as amended). Neither operation looks for duplicates. For every validator
  list whose operators are all accepted by \<open>getAddressBytes\<close>, also one holding entries of
  equal sort key, \<open>getSortedSignerOrder\<close> returns a list sorted by key that has exactly the
  entries of the input (each as often as the input has it), and \<open>computeValsetHash\<close>
  returns the SHA-256 over three fields for every entry of the input.
\<close>

theorem sorting_and_commitment_keep_duplicates:
  assumes "\<not> list_ex rejected signers"
  shows "\<exists>sortedSigners data.
           getSortedSignerOrder signers = Inr sortedSigners
         \<and> mset sortedSigners = mset signers
         \<and> sorted (map addressOf sortedSigners)
         \<and> signerData sortedSigners = Inr data
         \<and> length data = 3 * length signers
         \<and> computeValsetHash signers = Inr (sha256 (concat data))"
proof -
  let ?s = "sort_key addressOf signers"
  have r: "\<not> list_ex rejected ?s" using assms by (simp add: list_ex_sort_key)
  have len: "length (concat (map (\<lambda>s. [encodeWithLength (addressOf s),
        encodeWithLength (attestationPubkey s), encodeWithLength (setBigUint64 (power_val s))]) ?s))
      = 3 * length signers"
    by (simp add: length_concat comp_def sum_list_triv)
  show ?thesis
    apply (rule exI[of _ ?s])
    apply (rule exI)
    using assms signerData_accepted[OF r] len
    apply (simp add: getSortedSignerOrder_def sortSigners_def Array_sort_sort_key computeValsetHash_eq)
    done
qed

text \<open>Two entries of equal sort key are both returned, in the order of the input.\<close>

theorem sorting_and_commitment_keep_duplicates_witness:
  "getSortedSignerOrder
     [\<lparr>operator = ''a1b'', attestationPubkey = [3], power_val = 2\<rparr>,
      \<lparr>operator = ''a1b'', attestationPubkey = [2], power_val = 1\<rparr>]
   = Inr [\<lparr>operator = ''a1b'', attestationPubkey = [3], power_val = 2\<rparr>,
      \<lparr>operator = ''a1b'', attestationPubkey = [2], power_val = 1\<rparr>]"
proof -
  let ?l = "[\<lparr>operator = ''a1b'', attestationPubkey = [3], power_val = 2\<rparr>,
      \<lparr>operator = ''a1b'', attestationPubkey = [2], power_val = 1\<rparr>]"
  have "\<not> list_ex rejected ?l" by (simp add: rejected_def getAddressBytes_a1b)
  from sorting_and_commitment_keep_duplicates[OF this] show ?thesis
    by (auto simp: getSortedSignerOrder_def sortSigners_def rejected_def Array_sort_def
        compareSigners_def Buffer_compare_refl addressOf_def getAddressBytes_a1b)
qed

text \<open>
  A list that holds the same entry twice is not rejected: the ordering returns both
  entries and the commitment hashes both.
\<close>

theorem duplicate_entries_not_rejected:
  "getSortedSignerOrder
     [\<lparr>operator = ''a1b'', attestationPubkey = [2], power_val = 1\<rparr>,
      \<lparr>operator = ''a1b'', attestationPubkey = [2], power_val = 1\<rparr>]
   = Inr [\<lparr>operator = ''a1b'', attestationPubkey = [2], power_val = 1\<rparr>,
      \<lparr>operator = ''a1b'', attestationPubkey = [2], power_val = 1\<rparr>]
   \<and> computeValsetHash
     [\<lparr>operator = ''a1b'', attestationPubkey = [2], power_val = 1\<rparr>,
      \<lparr>operator = ''a1b'', attestationPubkey = [2], power_val = 1\<rparr>]
   = Inr (sha256
          [20, 62, 35, 232, 22, 0, 57, 89, 74, 51, 137, 79, 101, 100, 225, 177, 52, 139, 189, 122, 0, 1, 2,
           8, 0, 0, 0, 0, 0, 0, 0, 1,
           20, 62, 35, 232, 22, 0, 57, 89, 74, 51, 137, 79, 101, 100, 225, 177, 52, 139, 189, 122, 0, 1, 2,
           8, 0, 0, 0, 0, 0, 0, 0, 1])"
  by (simp add: getSortedSignerOrder_def valset_eval)

section \<open>Verification: signing daemon\<close>

text \<open>
  Claim C9. Signing rejects every digest whose length is not 32 bytes, and fails only
  when a precondition fails. \<open>SignDigest\<close> returns the length error for a digest of
  another length; it returns a signature exactly when the digest has 32 bytes and
  \<open>crypto.Sign\<close> succeeds, and an error exactly when the length is not 32 or \<open>crypto.Sign\<close>
  fails. The \<open>/sign\<close> handler answers a request whose decoded digest is not 32 bytes with
  status 400, whatever the key store and the signing primitive are (neither is
  consulted); it answers with a signature exactly when the request is a POST with a JSON
  body, both fields non-empty, a hexadecimal digest of 32 bytes, a key that the key store
  yields for the operator, and a successful \<open>crypto.Sign\<close> of that digest with that key.
\<close>

theorem signing_rejects_wrong_digest_length:
  "(length digest \<noteq> 32 \<longrightarrow>
      SignDigest crypto_Sign privateKey digest = Inl (DigestLength (length digest)))
   \<and> (\<forall>signature. SignDigest crypto_Sign privateKey digest = Inr signature \<longrightarrow> length digest = 32)
   \<and> (Method r = ''POST'' \<and> Body r = Some req \<and> OperatorBech32 req \<noteq> [] \<and> DigestHex req \<noteq> []
        \<and> hex_DecodeString (DigestHex req) = Some digest \<and> length digest \<noteq> 32 \<longrightarrow>
      handleSign crypto_ToECDSA crypto_Sign Keys r
        = ErrorResponse 400 ''digest must be exactly 32 bytes'')
   \<and> (\<forall>signature. handleSign crypto_ToECDSA crypto_Sign Keys r = SignResponse signature \<longrightarrow>
        (\<exists>req d. Body r = Some req \<and> hex_DecodeString (DigestHex req) = Some d \<and> length d = 32))
   \<and> (\<forall>signature. SignDigest crypto_Sign privateKey digest = Inr signature \<longleftrightarrow>
        length digest = 32 \<and> crypto_Sign digest privateKey = Some signature)
   \<and> (isl (SignDigest crypto_Sign privateKey digest) \<longleftrightarrow>
        length digest \<noteq> 32 \<or> crypto_Sign digest privateKey = None)
   \<and> (\<forall>signature. handleSign crypto_ToECDSA crypto_Sign Keys r = SignResponse signature \<longleftrightarrow>
        Method r = ''POST'' \<and>
        (\<exists>req d key. Body r = Some req \<and> OperatorBech32 req \<noteq> [] \<and> DigestHex req \<noteq> []
           \<and> hex_DecodeString (DigestHex req) = Some d \<and> length d = 32
           \<and> GetPrivateKey crypto_ToECDSA Keys (OperatorBech32 req) = Inr key
           \<and> crypto_Sign d key = Some signature))"
proof -
  have sd: "\<And>signature. SignDigest crypto_Sign privateKey digest = Inr signature \<longleftrightarrow>
        length digest = 32 \<and> crypto_Sign digest privateKey = Some signature"
    by (auto simp: SignDigest_def split: option.splits)
  have sl: "isl (SignDigest crypto_Sign privateKey digest) \<longleftrightarrow>
        length digest \<noteq> 32 \<or> crypto_Sign digest privateKey = None"
    by (auto simp: SignDigest_def split: option.splits)
  have hs: "\<And>signature. handleSign crypto_ToECDSA crypto_Sign Keys r = SignResponse signature \<longleftrightarrow>
        Method r = ''POST'' \<and>
        (\<exists>req d key. Body r = Some req \<and> OperatorBech32 req \<noteq> [] \<and> DigestHex req \<noteq> []
           \<and> hex_DecodeString (DigestHex req) = Some d \<and> length d = 32
           \<and> GetPrivateKey crypto_ToECDSA Keys (OperatorBech32 req) = Inr key
           \<and> crypto_Sign d key = Some signature)"
    by (auto simp: handleSign_def SignDigest_def split: option.splits sum.splits if_splits)
  have old: "(length digest \<noteq> 32 \<longrightarrow>
      SignDigest crypto_Sign privateKey digest = Inl (DigestLength (length digest)))
   \<and> (\<forall>signature. SignDigest crypto_Sign privateKey digest = Inr signature \<longrightarrow> length digest = 32)
   \<and> (Method r = ''POST'' \<and> Body r = Some req \<and> OperatorBech32 req \<noteq> [] \<and> DigestHex req \<noteq> []
        \<and> hex_DecodeString (DigestHex req) = Some digest \<and> length digest \<noteq> 32 \<longrightarrow>
      handleSign crypto_ToECDSA crypto_Sign Keys r
        = ErrorResponse 400 ''digest must be exactly 32 bytes'')
   \<and> (\<forall>signature. handleSign crypto_ToECDSA crypto_Sign Keys r = SignResponse signature \<longrightarrow>
        (\<exists>req d. Body r = Some req \<and> hex_DecodeString (DigestHex req) = Some d \<and> length d = 32))"
    by (auto simp: SignDigest_def handleSign_def split: option.splits sum.splits if_splits)
  show ?thesis using old sd sl hs by blast
qed

text \<open>
  A digest of three bytes at the key level and of two bytes at the endpoint are rejected;
  a digest of 32 bytes is signed at the key level, and at the endpoint with the key that
  the key store holds for the operator.
\<close>

theorem signing_rejects_wrong_digest_length_witness:
  "SignDigest (\<lambda>d k. Some d) () [1, 2, 3] = Inl (DigestLength 3)
   \<and> handleSign (\<lambda>b. Some ()) (\<lambda>d k. Some d) (Map.empty(''val1'' \<mapsto> ''00''))
        \<lparr>Method = ''POST'', Body = Some \<lparr>OperatorBech32 = ''val1'', DigestHex = ''abcd''\<rparr>\<rparr>
      = ErrorResponse 400 ''digest must be exactly 32 bytes''
   \<and> SignDigest (\<lambda>d k. Some (k # d)) 9 ([1, 2, 3, 4, 5, 6, 7, 8, 9, 10, 11, 12, 13, 14, 15, 16, 17, 18, 19, 20, 21, 22, 23, 24, 25, 26, 27, 28, 29, 30, 31, 32]) = Inr (9 # [1, 2, 3, 4, 5, 6, 7, 8, 9, 10, 11, 12, 13, 14, 15, 16, 17, 18, 19, 20, 21, 22, 23, 24, 25, 26, 27, 28, 29, 30, 31, 32])
   \<and> handleSign (\<lambda>b. Some (hd b)) (\<lambda>d k. Some (k # d)) (Map.empty(''val1'' \<mapsto> ''2a''))
        \<lparr>Method = ''POST'', Body = Some \<lparr>OperatorBech32 = ''val1'',
           DigestHex = ''0102030405060708090a0b0c0d0e0f101112131415161718191a1b1c1d1e1f20''\<rparr>\<rparr>
      = SignResponse (42 # [1, 2, 3, 4, 5, 6, 7, 8, 9, 10, 11, 12, 13, 14, 15, 16, 17, 18, 19, 20, 21, 22, 23, 24, 25, 26, 27, 28, 29, 30, 31, 32])"
proof -
  note a = signing_rejects_wrong_digest_length[where digest = "[1, 2, 3]" and crypto_Sign = "\<lambda>d k. Some d"
      and privateKey = "()", THEN conjunct1]
  note b = signing_rejects_wrong_digest_length[where digest = "[0xab, 0xcd]" and crypto_Sign = "\<lambda>d k. Some d"
      and crypto_ToECDSA = "\<lambda>b. Some ()" and Keys = "Map.empty(''val1'' \<mapsto> ''00'')"
      and r = "\<lparr>Method = ''POST'', Body = Some \<lparr>OperatorBech32 = ''val1'', DigestHex = ''abcd''\<rparr>\<rparr>"
      and req = "\<lparr>OperatorBech32 = ''val1'', DigestHex = ''abcd''\<rparr>"
      and privateKey = "()", THEN conjunct2, THEN conjunct2, THEN conjunct1]
  note c = signing_rejects_wrong_digest_length[where digest = "[1, 2, 3, 4, 5, 6, 7, 8, 9, 10, 11, 12, 13, 14, 15, 16, 17, 18, 19, 20, 21, 22, 23, 24, 25, 26, 27, 28, 29, 30, 31, 32]" and crypto_Sign = "\<lambda>d k. Some (k # d)"
      and privateKey = "9 :: byte", THEN conjunct2, THEN conjunct2, THEN conjunct2, THEN conjunct2,
      THEN conjunct1, THEN spec, of "9 # [1, 2, 3, 4, 5, 6, 7, 8, 9, 10, 11, 12, 13, 14, 15, 16, 17, 18, 19, 20, 21, 22, 23, 24, 25, 26, 27, 28, 29, 30, 31, 32]"]
  note d = signing_rejects_wrong_digest_length[where crypto_Sign = "\<lambda>d k. Some (k # d)"
      and crypto_ToECDSA = "\<lambda>b. Some (hd b)" and Keys = "Map.empty(''val1'' \<mapsto> ''2a'')"
      and r = "\<lparr>Method = ''POST'', Body = Some \<lparr>OperatorBech32 = ''val1'',
           DigestHex = ''0102030405060708090a0b0c0d0e0f101112131415161718191a1b1c1d1e1f20''\<rparr>\<rparr>"
      and privateKey = "9 :: byte" and digest = "[]",
      THEN conjunct2, THEN conjunct2, THEN conjunct2, THEN conjunct2,
      THEN conjunct2, THEN conjunct2, THEN spec, of "42 # [1, 2, 3, 4, 5, 6, 7, 8, 9, 10, 11, 12, 13, 14, 15, 16, 17, 18, 19, 20, 21, 22, 23, 24, 25, 26, 27, 28, 29, 30, 31, 32]"]
  have h: "hex_DecodeString ''abcd'' = Some [0xab, 0xcd]"
    by (simp add: fromHexChar_def byte_of_def)
  have k: "GetPrivateKey (\<lambda>b. Some (hd b)) (Map.empty(''val1'' \<mapsto> ''2a'')) ''val1'' = Inr (42 :: byte)"
    by (simp add: GetPrivateKey_def fromHexChar_def byte_of_def)
  have g: "hex_DecodeString ''0102030405060708090a0b0c0d0e0f101112131415161718191a1b1c1d1e1f20''
      = Some ([1, 2, 3, 4, 5, 6, 7, 8, 9, 10, 11, 12, 13, 14, 15, 16, 17, 18, 19, 20, 21, 22, 23, 24, 25, 26, 27, 28, 29, 30, 31, 32])"
    by (simp add: fromHexChar_def byte_of_def)
  have s1: "SignDigest (\<lambda>d k. Some d) () [1, 2, 3] = Inl (DigestLength 3)" using a by simp
  have s2: "handleSign (\<lambda>b. Some ()) (\<lambda>d k. Some d) (Map.empty(''val1'' \<mapsto> ''00''))
        \<lparr>Method = ''POST'', Body = Some \<lparr>OperatorBech32 = ''val1'', DigestHex = ''abcd''\<rparr>\<rparr>
      = ErrorResponse 400 ''digest must be exactly 32 bytes''" using b h by simp
  have s3: "SignDigest (\<lambda>d k. Some (k # d)) 9 ([1, 2, 3, 4, 5, 6, 7, 8, 9, 10, 11, 12, 13, 14, 15, 16, 17, 18, 19, 20, 21, 22, 23, 24, 25, 26, 27, 28, 29, 30, 31, 32]) = Inr (9 # [1, 2, 3, 4, 5, 6, 7, 8, 9, 10, 11, 12, 13, 14, 15, 16, 17, 18, 19, 20, 21, 22, 23, 24, 25, 26, 27, 28, 29, 30, 31, 32])"
    using c by simp
  have s4: "handleSign (\<lambda>b. Some (hd b)) (\<lambda>d k. Some (k # d)) (Map.empty(''val1'' \<mapsto> ''2a''))
        \<lparr>Method = ''POST'', Body = Some \<lparr>OperatorBech32 = ''val1'',
           DigestHex = ''0102030405060708090a0b0c0d0e0f101112131415161718191a1b1c1d1e1f20''\<rparr>\<rparr>
      = SignResponse (42 # [1, 2, 3, 4, 5, 6, 7, 8, 9, 10, 11, 12, 13, 14, 15, 16, 17, 18, 19, 20, 21, 22, 23, 24, 25, 26, 27, 28, 29, 30, 31, 32])"
    using d g k by simp
  from s1 s2 s3 s4 show ?thesis by simp
qed

end
